theory Spec2Isabelle
  imports Complex_Main "HOL-Library.Sublist"
begin

section \<open>Strings\<close>

text \<open>
  A TypeScript string is modelled as a \<^typ>\<open>string\<close> whose characters stand for the
  code units U+0000 to U+00FF (Latin-1, which holds the Swedish letters of the
  shopping lists and of the exclusion words).  Numbers are exact: the result of
  \<^verbatim>\<open>parseInt\<close> is a natural number, the result of \<^verbatim>\<open>parseFloat\<close> a rational.
\<close>

definition code_unit :: "char \<Rightarrow> nat" where
  "code_unit c = of_char c"

definition is_digit :: "char \<Rightarrow> bool" where
  \<comment> \<open>the class \<^verbatim>\<open>\d\<close>\<close>
  "is_digit c \<longleftrightarrow> 48 \<le> code_unit c \<and> code_unit c \<le> 57"

definition is_word :: "char \<Rightarrow> bool" where
  \<comment> \<open>the class \<^verbatim>\<open>\w\<close>: letters, digits and the underscore of ASCII\<close>
  "is_word c \<longleftrightarrow>
     (65 \<le> code_unit c \<and> code_unit c \<le> 90) \<or> (97 \<le> code_unit c \<and> code_unit c \<le> 122) \<or>
     is_digit c \<or> code_unit c = 95"

definition is_space :: "char \<Rightarrow> bool" where
  \<comment> \<open>the class \<^verbatim>\<open>\s\<close>, which is also what \<^verbatim>\<open>trim\<close> strips: tab, line feed, vertical
      tab, form feed, carriage return, space and the no-break space\<close>
  "is_space c \<longleftrightarrow> code_unit c \<in> {9, 10, 11, 12, 13, 32, 160}"

definition toLowerCase_char :: "char \<Rightarrow> char" where
  "toLowerCase_char c =
     (let n = code_unit c in
      if (65 \<le> n \<and> n \<le> 90) \<or> (192 \<le> n \<and> n \<le> 222 \<and> n \<noteq> 215) then char_of (n + 32) else c)"

definition toLowerCase :: "string \<Rightarrow> string" where
  "toLowerCase s = map toLowerCase_char s"

definition trim :: "string \<Rightarrow> string" where
  "trim s = rev (dropWhile is_space (rev (dropWhile is_space s)))"

fun startsWith :: "string \<Rightarrow> string \<Rightarrow> bool" where
  "startsWith s [] = True"
| "startsWith [] (p # ps) = False"
| "startsWith (c # cs) (p # ps) = (c = p \<and> startsWith cs ps)"

fun includes_str :: "string \<Rightarrow> string \<Rightarrow> bool" where
  \<comment> \<open>\<^verbatim>\<open>s.includes(p)\<close>: \<open>p\<close> occurs in \<open>s\<close> at some position\<close>
  "includes_str [] p = (p = [])"
| "includes_str (c # cs) p = (startsWith (c # cs) p \<or> includes_str cs p)"

datatype js_error = TypeError | ChatError

section \<open>Regular expressions\<close>

text \<open>
  A piece of a regular expression, applied to the text that starts at the current
  position, gives every way in which it can match there, as pairs of the text it
  consumed and the text that remains, in the order in which backtracking tries them.
  A sequence of pieces is the list of all combinations in that order, and the match of
  the whole expression at a position is the first of them.
\<close>

definition ascii_lower :: "char \<Rightarrow> char" where
  \<comment> \<open>the flag \<^verbatim>\<open>i\<close> lets a letter of the pattern match both of its ASCII cases\<close>
  "ascii_lower c = (if 65 \<le> code_unit c \<and> code_unit c \<le> 90 then char_of (code_unit c + 32) else c)"

fun star :: "(char \<Rightarrow> bool) \<Rightarrow> string \<Rightarrow> (string \<times> string) list" where
  \<comment> \<open>a character class under the greedy \<^verbatim>\<open>*\<close>: the longest run first\<close>
  "star P [] = [([], [])]"
| "star P (c # cs) =
     (if P c then map (\<lambda>(m, r). (c # m, r)) (star P cs) @ [([], c # cs)] else [([], c # cs)])"

definition plus :: "(char \<Rightarrow> bool) \<Rightarrow> string \<Rightarrow> (string \<times> string) list" where
  \<comment> \<open>a character class under the greedy \<^verbatim>\<open>+\<close>\<close>
  "plus P s = filter (\<lambda>(m, r). m \<noteq> []) (star P s)"

definition opt :: "(char \<Rightarrow> bool) \<Rightarrow> string \<Rightarrow> (string \<times> string) list" where
  \<comment> \<open>a character class under the greedy \<^verbatim>\<open>?\<close>\<close>
  "opt P s = (case s of c # cs \<Rightarrow> (if P c then [([c], cs), ([], s)] else [([], s)]) | [] \<Rightarrow> [([], [])])"

definition lit :: "string \<Rightarrow> string \<Rightarrow> (string \<times> string) list" where
  \<comment> \<open>a literal in lower case under the flag \<^verbatim>\<open>i\<close>\<close>
  "lit w s =
     (if length w \<le> length s \<and> map ascii_lower (take (length w) s) = w
      then [(take (length w) s, drop (length w) s)] else [])"

fun regex_search :: "(string \<Rightarrow> 'a list) \<Rightarrow> string \<Rightarrow> 'a option" where
  \<comment> \<open>the leftmost position at which the expression matches, and its first match there;
      the last position tried is the end of the text\<close>
  "regex_search rx [] = (case rx [] of x # _ \<Rightarrow> Some x | [] \<Rightarrow> None)"
| "regex_search rx (c # cs) = (case rx (c # cs) of x # _ \<Rightarrow> Some x | [] \<Rightarrow> regex_search rx cs)"

fun regex_search_after :: "(char option \<Rightarrow> string \<Rightarrow> 'a list) \<Rightarrow> char option \<Rightarrow> string \<Rightarrow> 'a option" where
  \<comment> \<open>the same for an expression that looks at the character before the position\<close>
  "regex_search_after rx prev [] = (case rx prev [] of x # _ \<Rightarrow> Some x | [] \<Rightarrow> None)"
| "regex_search_after rx prev (c # cs) =
     (case rx prev (c # cs) of x # _ \<Rightarrow> Some x | [] \<Rightarrow> regex_search_after rx (Some c) cs)"

definition word_boundary :: "char option \<Rightarrow> string \<Rightarrow> bool" where
  \<comment> \<open>\<^verbatim>\<open>\b\<close>: exactly one of the characters before and after the position is a word character\<close>
  "word_boundary prev s =
     ((case prev of Some c \<Rightarrow> is_word c | None \<Rightarrow> False) \<noteq>
      (case s of c # _ \<Rightarrow> is_word c | [] \<Rightarrow> False))"

definition requirement_rx :: "string \<Rightarrow> (string \<times> string) list" where
  \<comment> \<open>\<^verbatim>\<open>/(\d+\.?\d*)\s*(g|gram|kg|kilo)/i\<close>, giving the two groups\<close>
  "requirement_rx s =
     [(d1 @ dot @ d2, u).
        (d1, r1) \<leftarrow> plus is_digit s,
        (dot, r2) \<leftarrow> opt (\<lambda>c. c = CHR ''.'') r1,
        (d2, r3) \<leftarrow> star is_digit r2,
        (ws, r4) \<leftarrow> star is_space r3,
        (u, r5) \<leftarrow> lit ''g'' r4 @ lit ''gram'' r4 @ lit ''kg'' r4 @ lit ''kilo'' r4]"

definition volume_rx :: "string \<Rightarrow> (string \<times> string) list" where
  \<comment> \<open>\<^verbatim>\<open>/(\d+)\s*(g|kg)/i\<close>, giving the two groups\<close>
  "volume_rx s =
     [(d, u).
        (d, r1) \<leftarrow> plus is_digit s,
        (ws, r2) \<leftarrow> star is_space r1,
        (u, r3) \<leftarrow> lit ''g'' r2 @ lit ''kg'' r2]"

definition digits_rx :: "string \<Rightarrow> string list" where
  \<comment> \<open>\<^verbatim>\<open>/(\d+)/\<close>\<close>
  "digits_rx s = [d. (d, r) \<leftarrow> plus is_digit s]"

definition product_phrase_rx :: "string \<Rightarrow> string list" where
  \<comment> \<open>\<^verbatim>\<open>/Product\s+(\d+)/i\<close>\<close>
  "product_phrase_rx s =
     [d.
        (w, r1) \<leftarrow> lit ''product'' s,
        (ws, r2) \<leftarrow> plus is_space r1,
        (d, r3) \<leftarrow> plus is_digit r2]"

definition single_digit_rx :: "string \<Rightarrow> string option" where
  \<comment> \<open>\<^verbatim>\<open>/^[1-9]$/\<close> without the flag \<^verbatim>\<open>m\<close>: the whole text is one digit from 1 to 9\<close>
  "single_digit_rx s =
     (case s of
        [c] \<Rightarrow> (if 49 \<le> code_unit c \<and> code_unit c \<le> 57 then Some [c] else None)
      | _ \<Rightarrow> None)"

definition any_number_rx :: "char option \<Rightarrow> string \<Rightarrow> string list" where
  \<comment> \<open>\<^verbatim>\<open>/\b(\d+)\b/\<close>\<close>
  "any_number_rx prev s =
     [d.
        (d, r) \<leftarrow> (if word_boundary prev s then plus is_digit s else []),
        word_boundary (Some (last d)) r]"

section \<open>Numbers\<close>

definition digit_value :: "char \<Rightarrow> nat" where
  \<comment> \<open>the value of a decimal digit\<close>
  "digit_value c = code_unit c - 48"

definition parseInt :: "string \<Rightarrow> nat" where
  \<comment> \<open>\<^verbatim>\<open>parseInt(d, 10)\<close> on a run of decimal digits\<close>
  "parseInt d = foldl (\<lambda>n c. 10 * n + digit_value c) 0 d"

definition parseFloat :: "string \<Rightarrow> rat" where
  \<comment> \<open>\<^verbatim>\<open>parseFloat\<close> on digits, an optional point and optional further digits\<close>
  "parseFloat t =
     (let whole = takeWhile is_digit t;
          fraction = (case dropWhile is_digit t of
                        c # cs \<Rightarrow> (if c = CHR ''.'' then takeWhile is_digit cs else [])
                      | [] \<Rightarrow> [])
      in of_nat (parseInt whole) + of_nat (parseInt fraction) / 10 ^ length fraction)"

fun insert_sorted :: "('a \<Rightarrow> 'a \<Rightarrow> int) \<Rightarrow> 'a \<Rightarrow> 'a list \<Rightarrow> 'a list" where
  "insert_sorted cmp x [] = [x]"
| "insert_sorted cmp x (y # ys) =
     (if cmp x y \<le> 0 then x # y # ys else y # insert_sorted cmp x ys)"

definition sort_by :: "('a \<Rightarrow> 'a \<Rightarrow> int) \<Rightarrow> 'a list \<Rightarrow> 'a list" where
  \<comment> \<open>\<^verbatim>\<open>Array.prototype.sort\<close> with a comparison function: the result is in the order of
      the comparison, and elements that compare equal keep their order\<close>
  "sort_by cmp xs = foldr (insert_sorted cmp) xs []"

section \<open>The candidate product matcher\<close>

record product =
  title :: string
  element :: nat
  price :: "string option"
  comparePrice :: "string option"
  displayVolume :: "string option"
  quantity :: nat

definition requestedWeightOf :: "string \<Rightarrow> rat option" where
  \<comment> \<open>the weight of the shopping list item in grams; \<open>None\<close> when \<^verbatim>\<open>weightMatch\<close> is null\<close>
  "requestedWeightOf shoppingListItem =
     (case regex_search requirement_rx shoppingListItem of
        None \<Rightarrow> None
      | Some (g1, g2) \<Rightarrow>
          (let requestedWeight = parseFloat g1;
               requestedUnit = toLowerCase g2
           in Some (if requestedUnit = ''kg'' \<or> requestedUnit = ''kilo''
                    then requestedWeight * 1000 else requestedWeight)))"

definition volumeWeight :: "string \<Rightarrow> nat" where
  \<comment> \<open>the weight in grams that the callback of \<^verbatim>\<open>products.map\<close> reads from \<^verbatim>\<open>weightText\<close>\<close>
  "volumeWeight weightText =
     (case regex_search volume_rx weightText of
        Some (g1, g2) \<Rightarrow>
          (let weight = parseInt g1;
               unit = toLowerCase g2
           in if unit = ''kg'' then weight * 1000 else weight)
      | None \<Rightarrow> 0)"

definition weightText :: "product \<Rightarrow> string" where
  \<comment> \<open>\<^verbatim>\<open>product.displayVolume || ''\<close>\<close>
  "weightText p = (case displayVolume p of Some v \<Rightarrow> v | None \<Rightarrow> [])"

definition productWeight :: "product \<Rightarrow> nat" where
  "productWeight p = volumeWeight (weightText p)"

definition selectByWeight :: "product list \<Rightarrow> rat \<Rightarrow> js_error + product" where
  \<comment> \<open>the selection without the text-generation service; reading \<^verbatim>\<open>productWeights[0].product\<close>
      of an empty array throws\<close>
  "selectByWeight products requestedWeight =
     (let productWeights = map (\<lambda>p. (p, productWeight p)) products;
          validProducts = filter (\<lambda>pw. of_nat (snd pw) \<ge> requestedWeight) productWeights
      in if length validProducts > 0 then
           (case sort_by (\<lambda>a b. int (snd a) - int (snd b)) validProducts of
              bestMatch # _ \<Rightarrow> Inr (fst bestMatch)
            | [] \<Rightarrow> Inl TypeError)
         else
           (case sort_by (\<lambda>a b. int (snd b) - int (snd a)) productWeights of
              bestMatch # _ \<Rightarrow> Inr (fst bestMatch)
            | [] \<Rightarrow> Inl TypeError))"

fun split_lines :: "string \<Rightarrow> string list" where
  \<comment> \<open>\<^verbatim>\<open>split('\n')\<close>\<close>
  "split_lines [] = [[]]"
| "split_lines (c # cs) =
     (if c = CHR 0x0A then [] # split_lines cs
      else (case split_lines cs of l # ls \<Rightarrow> (c # l) # ls | [] \<Rightarrow> [[c]]))"

definition lastLineMatch :: "string \<Rightarrow> string option" where
  \<comment> \<open>the digits found on the last line that is not blank; \<^verbatim>\<open>pop\<close> of an empty array is undefined\<close>
  "lastLineMatch responseText =
     (case filter (\<lambda>line. length (trim line) > 0) (split_lines responseText) of
        [] \<Rightarrow> None
      | l # ls \<Rightarrow> regex_search digits_rx (last (l # ls)))"

definition productPhraseMatch :: "string \<Rightarrow> string option" where
  "productPhraseMatch responseText = regex_search product_phrase_rx responseText"

definition singleDigitMatch :: "string \<Rightarrow> string option" where
  "singleDigitMatch responseText = single_digit_rx responseText"

definition anyNumberMatch :: "string \<Rightarrow> string option" where
  "anyNumberMatch responseText = regex_search_after any_number_rx None responseText"

definition inRange :: "nat \<Rightarrow> string \<Rightarrow> int option" where
  \<comment> \<open>the body of each \<^verbatim>\<open>if\<close> on a match: \<open>n\<close> is \<^verbatim>\<open>products.length\<close>\<close>
  "inRange n d =
     (let selectedIndex = int (parseInt d) - 1
      in if selectedIndex \<ge> 0 \<and> selectedIndex < int n then Some selectedIndex else None)"

definition selectedIndexOf :: "nat \<Rightarrow> string \<Rightarrow> int option" where
  \<comment> \<open>the four extractions of the product number, each followed by its range check\<close>
  "selectedIndexOf n responseText =
     (case Option.bind (lastLineMatch responseText) (inRange n) of
        Some selectedIndex \<Rightarrow> Some selectedIndex
      | None \<Rightarrow>
     (case Option.bind (productPhraseMatch responseText) (inRange n) of
        Some selectedIndex \<Rightarrow> Some selectedIndex
      | None \<Rightarrow>
     (case Option.bind (singleDigitMatch responseText) (inRange n) of
        Some selectedIndex \<Rightarrow> Some selectedIndex
      | None \<Rightarrow>
     (case Option.bind (anyNumberMatch responseText) (inRange n) of
        Some selectedIndex \<Rightarrow> Some selectedIndex
      | None \<Rightarrow> None))))"

definition selectFromResponse :: "product list \<Rightarrow> string \<Rightarrow> product option" where
  \<comment> \<open>from \<^verbatim>\<open>responseText\<close> to the \<^verbatim>\<open>return\<close> of the \<^verbatim>\<open>try\<close> block\<close>
  "selectFromResponse products responseText =
     (case selectedIndexOf (length products) responseText of
        Some selectedIndex \<Rightarrow> Some (products ! nat selectedIndex)
      | None \<Rightarrow> (if length products > 0 then Some (products ! 0) else None))"

text \<open>
  The first argument of \<open>selectBestProduct\<close> is what the call of \<^verbatim>\<open>ollama.chat\<close> gives
  if it is made: the text \<^verbatim>\<open>response.message.content\<close>, or the exception raised by the
  call or by reading the response.  The result holds the value returned and the
  number of calls made.
\<close>

definition selectBestProduct_try :: "js_error + string \<Rightarrow> product list \<Rightarrow> string \<Rightarrow> (js_error + product option) \<times> nat" where
  \<comment> \<open>the body of the \<^verbatim>\<open>try\<close>\<close>
  "selectBestProduct_try response products shoppingListItem =
     (case requestedWeightOf shoppingListItem of
        Some requestedWeight \<Rightarrow>
          (case selectByWeight products requestedWeight of
             Inr bestMatch \<Rightarrow> (Inr (Some bestMatch), 0)
           | Inl e \<Rightarrow> (Inl e, 0))
      | None \<Rightarrow>
          (case response of
             Inl e \<Rightarrow> (Inl e, 1)
           | Inr content \<Rightarrow> (Inr (selectFromResponse products (trim content)), 1)))"

definition selectBestProduct :: "js_error + string \<Rightarrow> product list \<Rightarrow> string \<Rightarrow> product option \<times> nat" where
  "selectBestProduct response products shoppingListItem =
     (case selectBestProduct_try response products shoppingListItem of
        (Inr selected, calls) \<Rightarrow> (selected, calls)
      | (Inl e, calls) \<Rightarrow> (None, calls))"

section \<open>The quantity optimizer\<close>







section \<open>The recipe ingredient extractor\<close>

subsection \<open>The exclusion filter\<close>

definition shouldExcludeIngredient :: "string list \<Rightarrow> string \<Rightarrow> bool" where
  \<comment> \<open>the first argument is \<^verbatim>\<open>config.recipeParser.excludeIngredients\<close>\<close>
  "shouldExcludeIngredient excludeIngredients ingredient =
     (let lowerIngredient = toLowerCase ingredient in
      list_ex (\<lambda>excluded. includes_str lowerIngredient (toLowerCase excluded)) excludeIngredients)"

definition filterIngredients :: "string list \<Rightarrow> string list \<Rightarrow> string list" where
  \<comment> \<open>the two \<^verbatim>\<open>filter\<close> calls of \<^verbatim>\<open>extractIngredientsFromJsonLd\<close>\<close>
  "filterIngredients excludeIngredients ingredients =
     filter (\<lambda>i. \<not> shouldExcludeIngredient excludeIngredients i)
       (filter (\<lambda>i. i \<noteq> [] \<and> length i > 0) ingredients)"

definition config_excludeIngredients :: "string list" where
  \<comment> \<open>salt, peppar, vatten, olja and smor written with o-umlaut (U+00F6)\<close>
  "config_excludeIngredients =
     [''salt'', ''peppar'', ''vatten'', ''olja'', [CHR ''s'', CHR ''m'', CHR 0xF6, CHR ''r'']]"

subsection \<open>Structured-data blocks\<close>















section \<open>The ingredient normalizer\<close>

text \<open>
  The first argument is what the one call of \<^verbatim>\<open>ollama.chat\<close> gives: the text
  \<^verbatim>\<open>response.message.content\<close>, or the exception raised by the call or by reading the
  response.
\<close>

definition processIngredientDescription_try :: "js_error + string \<Rightarrow> string \<Rightarrow> js_error + string" where
  \<comment> \<open>the body of the \<^verbatim>\<open>try\<close>\<close>
  "processIngredientDescription_try response ingredient =
     (case response of
        Inl e \<Rightarrow> Inl e
      | Inr content \<Rightarrow> (let searchTerm = trim content in Inr searchTerm))"

definition processIngredientDescription :: "js_error + string \<Rightarrow> string \<Rightarrow> string" where
  "processIngredientDescription response ingredient =
     (case processIngredientDescription_try response ingredient of
        Inr searchTerm \<Rightarrow> searchTerm
      | Inl e \<Rightarrow> ingredient)"

section \<open>Descriptions used in the theorems\<close>

text \<open>
  The definitions of this section are not part of the program: they say, in terms of
  lists and sets, what the theorems state about it.
\<close>

definition sufficientWeights :: "product list \<Rightarrow> rat \<Rightarrow> nat list" where
  \<comment> \<open>the weights of the candidates that reach the required weight\<close>
  "sufficientWeights products R = filter (\<lambda>w. R \<le> of_nat w) (map productWeight products)"

definition closestWeight :: "product list \<Rightarrow> rat \<Rightarrow> nat" where
  \<comment> \<open>the least weight that reaches the required weight, or else the greatest weight\<close>
  "closestWeight products R =
     (if sufficientWeights products R \<noteq> [] then Min (set (sufficientWeights products R))
      else Max (set (map productWeight products)))"

fun firstInRange :: "nat \<Rightarrow> string option list \<Rightarrow> int option" where
  \<comment> \<open>the first of the given matches whose number is the index of a product\<close>
  "firstInRange n [] = None"
| "firstInRange n (m # ms) =
     (case Option.bind m (inRange n) of
        Some selectedIndex \<Rightarrow> Some selectedIndex
      | None \<Rightarrow> firstInRange n ms)"

definition spec_final_choice_rx :: "string \<Rightarrow> string list" where
  \<comment> \<open>the phrase \<^verbatim>\<open>Final choice: N\<close> that the specification names, read as
      \<^verbatim>\<open>/Final choice:\s*(\d+)/i\<close>; \<^verbatim>\<open>selectBestProduct\<close> has no such expression\<close>
  "spec_final_choice_rx s =
     [d.
        (w, r1) \<leftarrow> lit ''final choice:'' s,
        (ws, r2) \<leftarrow> star is_space r1,
        (d, r3) \<leftarrow> plus is_digit r2]"

definition first_digits :: "string \<Rightarrow> string option" where
  \<comment> \<open>the first run of digits of a text\<close>
  "first_digits s =
     (if list_ex is_digit s then Some (takeWhile is_digit (dropWhile (\<lambda>c. \<not> is_digit c) s)) else None)"

definition contains_ci :: "string \<Rightarrow> string \<Rightarrow> bool" where
  \<comment> \<open>\<open>e\<close> is a substring of \<open>s\<close> when both are compared in lower case\<close>
  "contains_ci s e \<longleftrightarrow> (\<exists>pre post. toLowerCase s = pre @ toLowerCase e @ post)"



section \<open>Example inputs\<close>

definition candidate :: "string \<Rightarrow> nat \<Rightarrow> string option \<Rightarrow> product" where
  \<comment> \<open>a product as \<^verbatim>\<open>findProductsOnPage\<close> builds it, without prices\<close>
  "candidate t e v =
     \<lparr>title = t, element = e, price = None, comparePrice = None, displayVolume = v, quantity = 0\<rparr>"

definition bananas :: "product list" where
  "bananas =
     [candidate ''Banan Klass 1'' 0 (Some ''150g''),
      candidate ''Banan Eko'' 1 (Some ''300g''),
      candidate ''Bananer i klase'' 2 (Some ''500g''),
      candidate ''Bananer Fairtrade'' 3 (Some ''ca 500 g'')]"

definition unweighed :: "product list" where
  "unweighed =
     [candidate ''Jordnotssmor'' 0 None,
      candidate ''Jordnotssmor Crunchy'' 1 (Some ''1 st''),
      candidate ''Jordnotter'' 2 (Some ''2 kilo'')]"


definition final_choice_text :: string where
  \<comment> \<open>three lines: a sentence with two numbers, the phrase \<^verbatim>\<open>Final choice: 2\<close>, a closing word\<close>
  "final_choice_text = ''Among 1 and 2.'' @ [CHR 0x0A] @ ''Final choice: 2'' @ [CHR 0x0A] @ ''Thanks.''"

definition out_of_range_text :: string where
  \<comment> \<open>two lines: a sentence naming product 2, and the number 7\<close>
  "out_of_range_text = ''Product 2 is best.'' @ [CHR 0x0A] @ ''7''"


section \<open>Properties\<close>

subsection \<open>Substrings and the exclusion filter\<close>

lemma startsWith_iff: "startsWith s p \<longleftrightarrow> (\<exists>post. s = p @ post)"
  by (induction s p rule: startsWith.induct) auto

lemma includes_iff: "includes_str s p \<longleftrightarrow> (\<exists>pre post. s = pre @ p @ post)"
proof (induction s)
  case Nil
  then show ?case by simp
next
  case (Cons c cs)
  show ?case
  proof
    assume "includes_str (c # cs) p"
    then consider "startsWith (c # cs) p" | "includes_str cs p" by auto
    then show "\<exists>pre post. c # cs = pre @ p @ post"
    proof cases
      case 1
      then obtain post where "c # cs = p @ post" by (auto simp: startsWith_iff)
      then have "c # cs = [] @ p @ post" by simp
      then show ?thesis by blast
    next
      case 2
      then obtain pre post where "cs = pre @ p @ post" using Cons.IH by auto
      then have "c # cs = (c # pre) @ p @ post" by simp
      then show ?thesis by blast
    qed
  next
    assume "\<exists>pre post. c # cs = pre @ p @ post"
    then obtain pre post where e: "c # cs = pre @ p @ post" by blast
    show "includes_str (c # cs) p"
    proof (cases pre)
      case Nil
      then have "startsWith (c # cs) p" using e by (auto simp: startsWith_iff)
      then show ?thesis by simp
    next
      case (Cons a pre')
      then have "cs = pre' @ p @ post" using e by simp
      then have "includes_str cs p" using Cons.IH by blast
      then show ?thesis by simp
    qed
  qed
qed

lemma shouldExcludeIngredient_iff:
  "shouldExcludeIngredient ex i \<longleftrightarrow> (\<exists>e \<in> set ex. contains_ci i e)"
  by (simp add: shouldExcludeIngredient_def contains_ci_def list_ex_iff includes_iff)

lemma shouldExcludeIngredient_lower:
  "shouldExcludeIngredient ex i =
     list_ex (includes_str (toLowerCase i)) (map toLowerCase ex)"
  by (simp add: shouldExcludeIngredient_def list_ex_iff)

subsection \<open>Locating the recipe object\<close>






subsection \<open>Trimming\<close>

lemma trim_decompose:
  "s = takeWhile is_space s @ trim s @ rev (takeWhile is_space (rev (dropWhile is_space s)))"
proof -
  let ?d = "dropWhile is_space s"
  have "rev ?d = takeWhile is_space (rev ?d) @ dropWhile is_space (rev ?d)"
    by simp
  then have "?d = rev (dropWhile is_space (rev ?d)) @ rev (takeWhile is_space (rev ?d))"
    by (metis rev_append rev_rev_ident)
  then have "?d = trim s @ rev (takeWhile is_space (rev ?d))"
    by (simp add: trim_def)
  moreover have "s = takeWhile is_space s @ ?d" by simp
  ultimately show ?thesis by metis
qed

lemma trim_ends:
  assumes "trim s \<noteq> []"
  shows "\<not> is_space (hd (trim s))" and "\<not> is_space (last (trim s))"
proof -
  let ?d = "dropWhile is_space s"
  let ?e = "dropWhile is_space (rev ?d)"
  have e: "?e \<noteq> []" using assms by (simp add: trim_def)
  then have "\<not> is_space (hd ?e)" by (rule hd_dropWhile)
  then show "\<not> is_space (last (trim s))"
    using e by (simp add: trim_def last_rev)
  have d: "?d \<noteq> []" using e by (cases ?d) auto
  then have nd: "\<not> is_space (hd ?d)" by (rule hd_dropWhile)
  obtain ws where ws: "?d = trim s @ ws"
    using trim_decompose [of s]
    by (metis append_eq_append_conv takeWhile_dropWhile_id)
  then have "hd ?d = hd (trim s)" using assms by (metis hd_append2)
  then show "\<not> is_space (hd (trim s))" using nd by simp
qed

subsection \<open>The first element of a sorted array\<close>

lemma insert_sorted_not_Nil: "insert_sorted cmp x ys \<noteq> []"
  by (cases ys) auto

lemma sort_by_Cons: "sort_by cmp (x # xs) = insert_sorted cmp x (sort_by cmp xs)"
  by (simp add: sort_by_def)

lemma sort_by_Nil_iff: "sort_by cmp xs = [] \<longleftrightarrow> xs = []"
  by (cases xs) (auto simp: sort_by_Cons insert_sorted_not_Nil, simp add: sort_by_def)

lemma hd_insert_sorted:
  "hd (insert_sorted cmp x ys) = (if ys = [] \<or> cmp x (hd ys) \<le> 0 then x else hd ys)"
  by (cases ys) auto

lemma find_least_key:
  fixes k :: "'a \<Rightarrow> int"
  assumes "xs \<noteq> []"
  shows "List.find (\<lambda>y. k y = Min (k ` set xs)) xs = Some (hd (sort_by (\<lambda>a b. k a - k b) xs))"
  using assms
proof (induction xs)
  case Nil
  then show ?case by simp
next
  case (Cons x xs)
  let ?cmp = "\<lambda>a b. k a - k b"
  show ?case
  proof (cases "xs = []")
    case True
    then show ?thesis by (simp add: sort_by_def)
  next
    case False
    let ?h = "hd (sort_by ?cmp xs)"
    let ?m = "Min (k ` set xs)"
    have ih: "List.find (\<lambda>y. k y = ?m) xs = Some ?h" using Cons.IH False by simp
    then have hm: "k ?h = ?m" by (auto simp: find_Some_iff)
    have fin: "finite (k ` set xs)" "k ` set xs \<noteq> {}" using False by auto
    have M: "Min (k ` set (x # xs)) = min (k x) ?m"
      using fin by simp
    have ne: "sort_by ?cmp xs \<noteq> []" using False by (simp add: sort_by_Nil_iff)
    show ?thesis
    proof (cases "k x \<le> ?m")
      case True
      then have "hd (sort_by ?cmp (x # xs)) = x"
        using ne hm by (simp add: sort_by_Cons hd_insert_sorted)
      moreover have "Min (k ` set (x # xs)) = k x" using True M by simp
      ultimately show ?thesis by simp
    next
      case f: False
      then have "hd (sort_by ?cmp (x # xs)) = ?h"
        using ne hm by (simp add: sort_by_Cons hd_insert_sorted)
      moreover have "Min (k ` set (x # xs)) = ?m" using f M by simp
      moreover have "k x \<noteq> ?m" using f by simp
      ultimately show ?thesis using ih by simp
    qed
  qed
qed

lemma find_filter: "List.find P (filter Q xs) = List.find (\<lambda>x. Q x \<and> P x) xs"
  by (induction xs) auto

lemma find_map: "List.find P (map f xs) = map_option f (List.find (\<lambda>x. P (f x)) xs)"
  by (induction xs) auto

lemma Min_int_image:
  fixes S :: "nat set"
  assumes "finite S" "S \<noteq> {}"
  shows "Min (int ` S) = int (Min S)"
proof (rule Min_eqI)
  show "finite (int ` S)" using assms by simp
  show "int (Min S) \<in> int ` S" using assms by simp
  fix y assume "y \<in> int ` S"
  then obtain w where "w \<in> S" "y = int w" by blast
  then show "int (Min S) \<le> y" using assms by simp
qed

lemma Min_neg_int_image:
  fixes S :: "nat set"
  assumes "finite S" "S \<noteq> {}"
  shows "Min ((\<lambda>w. - int w) ` S) = - int (Max S)"
proof (rule Min_eqI)
  show "finite ((\<lambda>w. - int w) ` S)" using assms by simp
  show "- int (Max S) \<in> (\<lambda>w. - int w) ` S" using assms by simp
  fix y assume "y \<in> (\<lambda>w. - int w) ` S"
  then obtain w where "w \<in> S" "y = - int w" by blast
  then show "- int (Max S) \<le> y" using assms by simp
qed

subsection \<open>Selection by weight\<close>

lemma valid_weights:
  "map snd (filter (\<lambda>pw. R \<le> of_nat (snd pw)) (map (\<lambda>p. (p, productWeight p)) products))
     = sufficientWeights products R"
  by (induction products) (simp_all add: sufficientWeights_def)

lemma hd_sorted_valid:
  assumes "sufficientWeights products R \<noteq> []"
  shows "map_option (\<lambda>p. (p, productWeight p))
              (List.find (\<lambda>q. productWeight q = closestWeight products R) products)
         = Some (hd (sort_by (\<lambda>a b. int (snd a) - int (snd b))
                  (filter (\<lambda>pw. R \<le> of_nat (snd pw)) (map (\<lambda>p. (p, productWeight p)) products))))"
proof -
  let ?pw = "map (\<lambda>p. (p, productWeight p)) products"
  let ?valid = "filter (\<lambda>pw. R \<le> of_nat (snd pw)) ?pw"
  let ?S = "set (sufficientWeights products R)"
  let ?k = "\<lambda>a::product \<times> nat. int (snd a)"
  have ne: "?valid \<noteq> []"
    using assms valid_weights [of R products] by fastforce
  have m: "closestWeight products R = Min ?S"
    using assms by (simp add: closestWeight_def)
  have "Min ?S \<in> ?S" using assms by (intro Min_in) simp_all
  then have mR: "R \<le> of_nat (Min ?S)" by (simp add: sufficientWeights_def)
  have "?k ` set ?valid = int ` set (map snd ?valid)"
    by (simp only: set_map image_image)
  then have "?k ` set ?valid = int ` ?S" by (simp only: valid_weights)
  then have M: "Min (?k ` set ?valid) = int (Min ?S)"
    using assms by (simp only: Min_int_image [of ?S] List.finite_set set_empty, simp add: Min_int_image)
  have "List.find (\<lambda>y. ?k y = Min (?k ` set ?valid)) ?valid = Some (hd (sort_by (\<lambda>a b. ?k a - ?k b) ?valid))"
    using ne by (rule find_least_key)
  then have f: "map_option (\<lambda>p. (p, productWeight p))
              (List.find (\<lambda>p. R \<le> of_nat (productWeight p) \<and> productWeight p = Min ?S) products)
            = Some (hd (sort_by (\<lambda>a b. ?k a - ?k b) ?valid))"
    unfolding M by (simp add: find_filter find_map)
  have "(\<lambda>p. R \<le> of_nat (productWeight p) \<and> productWeight p = Min ?S)
            = (\<lambda>q. productWeight q = closestWeight products R)"
    using mR m by auto
  then show ?thesis using f by simp
qed

lemma hd_sorted_all:
  assumes "products \<noteq> []" and "sufficientWeights products R = []"
  shows "map_option (\<lambda>p. (p, productWeight p))
              (List.find (\<lambda>q. productWeight q = closestWeight products R) products)
         = Some (hd (sort_by (\<lambda>a b. int (snd b) - int (snd a))
                  (map (\<lambda>p. (p, productWeight p)) products)))"
proof -
  let ?pw = "map (\<lambda>p. (p, productWeight p)) products"
  let ?W = "set (map productWeight products)"
  let ?k = "\<lambda>a::product \<times> nat. - int (snd a)"
  have m: "closestWeight products R = Max ?W"
    using assms(2) by (simp add: closestWeight_def)
  have ne: "?pw \<noteq> []" using assms(1) by simp
  have cmp: "(\<lambda>a b. int (snd b) - int (snd a)) = (\<lambda>a b. ?k a - ?k b)"
    by (intro ext) simp
  have "map snd ?pw = map productWeight products" by (simp add: comp_def)
  then have "snd ` set ?pw = ?W" by (metis set_map)
  then have "?k ` set ?pw = (\<lambda>w. - int w) ` ?W"
    by (simp only: image_image [symmetric, of "\<lambda>w. - int w" snd])
  then have M: "Min (?k ` set ?pw) = - int (Max ?W)"
    using assms(1) by (simp add: Min_neg_int_image)
  have "List.find (\<lambda>y. ?k y = Min (?k ` set ?pw)) ?pw = Some (hd (sort_by (\<lambda>a b. ?k a - ?k b) ?pw))"
    using ne by (rule find_least_key)
  then show ?thesis
    unfolding M cmp [symmetric] m by (simp add: find_map)
qed

lemma selectByWeight_find:
  assumes "products \<noteq> []"
  shows "\<exists>p. selectByWeight products R = Inr p
           \<and> List.find (\<lambda>q. productWeight q = closestWeight products R) products = Some p"
proof -
  let ?pw = "map (\<lambda>p. (p, productWeight p)) products"
  let ?valid = "filter (\<lambda>pw. R \<le> of_nat (snd pw)) ?pw"
  have len: "length ?valid = length (sufficientWeights products R)"
    using valid_weights [of R products] by (metis length_map)
  show ?thesis
  proof (cases "sufficientWeights products R = []")
    case False
    let ?sorted = "sort_by (\<lambda>a b. int (snd a) - int (snd b)) ?valid"
    obtain p where p: "List.find (\<lambda>q. productWeight q = closestWeight products R) products = Some p"
      and hp: "hd ?sorted = (p, productWeight p)"
      using hd_sorted_valid [OF False] by auto
    have v: "length ?valid > 0" using len False by simp
    then have "?valid \<noteq> []" by blast
    then have "?sorted \<noteq> []" by (simp only: sort_by_Nil_iff) simp
    then obtain t where st: "?sorted = (p, productWeight p) # t"
      using hp by (cases ?sorted) simp_all
    have "selectByWeight products R =
            (case ?sorted of bestMatch # _ \<Rightarrow> Inr (fst bestMatch) | [] \<Rightarrow> Inl TypeError)"
      unfolding selectByWeight_def Let_def by (simp only: v if_True)
    also have "\<dots> = Inr p" by (simp only: st list.case fst_conv)
    finally show ?thesis using p by blast
  next
    case True
    let ?sorted = "sort_by (\<lambda>a b. int (snd b) - int (snd a)) ?pw"
    obtain p where p: "List.find (\<lambda>q. productWeight q = closestWeight products R) products = Some p"
      and hp: "hd ?sorted = (p, productWeight p)"
      using hd_sorted_all [OF assms True] by auto
    have v: "\<not> length ?valid > 0" using len True by simp
    have "?pw \<noteq> []" using assms by simp
    then have "?sorted \<noteq> []" by (simp only: sort_by_Nil_iff) simp
    then obtain t where st: "?sorted = (p, productWeight p) # t"
      using hp by (cases ?sorted) simp_all
    have "selectByWeight products R =
            (case ?sorted of bestMatch # _ \<Rightarrow> Inr (fst bestMatch) | [] \<Rightarrow> Inl TypeError)"
      unfolding selectByWeight_def Let_def by (simp only: v if_False)
    also have "\<dots> = Inr p" by (simp only: st list.case fst_conv)
    finally show ?thesis using p by blast
  qed
qed

subsection \<open>The quantity loop\<close>






subsection \<open>What a match of an expression consists of\<close>

lemma star_sound: "(m, r) \<in> set (star P s) \<Longrightarrow> s = m @ r \<and> (\<forall>c \<in> set m. P c)"
  by (induction s arbitrary: m) (auto split: if_splits)

lemma star_hd: "\<exists>rest. star P s = (takeWhile P s, dropWhile P s) # rest"
  by (induction s) auto

lemma plus_sound: "(m, r) \<in> set (plus P s) \<Longrightarrow> s = m @ r \<and> m \<noteq> [] \<and> (\<forall>c \<in> set m. P c)"
  using star_sound [of m r P s] by (auto simp: plus_def)

lemma plus_Nil: "s = [] \<or> \<not> P (hd s) \<Longrightarrow> plus P s = []"
  by (cases s) (auto simp: plus_def)

lemma plus_hd:
  assumes "s \<noteq> []" and "P (hd s)"
  shows "\<exists>rest. plus P s = (takeWhile P s, dropWhile P s) # rest"
proof -
  obtain rest where r: "star P s = (takeWhile P s, dropWhile P s) # rest"
    using star_hd by blast
  have "takeWhile P s \<noteq> []" using assms by (cases s) auto
  then show ?thesis unfolding plus_def r by simp
qed

lemma lit_sound: "(m, r) \<in> set (lit w s) \<Longrightarrow> s = m @ r \<and> map ascii_lower m = w"
  by (auto simp: lit_def split: if_splits)

lemma regex_search_sound:
  "regex_search rx s = Some x \<Longrightarrow> \<exists>pre suf. s = pre @ suf \<and> x \<in> set (rx suf)"
proof (induction s)
  case Nil
  then show ?case by (auto split: list.splits)
next
  case (Cons c cs)
  show ?case
  proof (cases "rx (c # cs)")
    case Nil
    then have "regex_search rx cs = Some x" using Cons.prems by simp
    then obtain pre suf where "cs = pre @ suf" "x \<in> set (rx suf)" using Cons.IH by blast
    then have "c # cs = (c # pre) @ suf \<and> x \<in> set (rx suf)" by simp
    then show ?thesis by blast
  next
    case (Cons y ys)
    then have "x = y" using Cons.prems by simp
    then have "c # cs = [] @ (c # cs) \<and> x \<in> set (rx (c # cs))" using Cons by simp
    then show ?thesis by blast
  qed
qed

lemma regex_search_after_sound:
  "regex_search_after rx prev s = Some x \<Longrightarrow>
     \<exists>pre suf. s = pre @ suf \<and> x \<in> set (rx (if pre = [] then prev else Some (last pre)) suf)"
proof (induction s arbitrary: prev)
  case Nil
  then have "x \<in> set (rx prev [])" by (cases "rx prev []") simp_all
  then show ?case by (intro exI [of _ "[]"]) simp
next
  case (Cons c cs)
  show ?case
  proof (cases "rx prev (c # cs)")
    case Nil
    then have "regex_search_after rx (Some c) cs = Some x" using Cons.prems by simp
    from Cons.IH [OF this] obtain pre suf where ps: "cs = pre @ suf"
        "x \<in> set (rx (if pre = [] then Some c else Some (last pre)) suf)"
      by auto
    have "x \<in> set (rx (if c # pre = [] then prev else Some (last (c # pre))) suf)"
      using ps(2) by (cases "pre = []") simp_all
    then show ?thesis using ps(1) by (intro exI [of _ "c # pre"] exI [of _ suf]) simp
  next
    case (Cons y ys)
    then have "x = y" using Cons.prems by simp
    then have "x \<in> set (rx prev (c # cs))" using Cons by simp
    then show ?thesis by (intro exI [of _ "[]"] exI [of _ "c # cs"]) simp
  qed
qed

lemma digits_rx_eq: "regex_search digits_rx s = first_digits s"
proof (induction s)
  case Nil
  then show ?case by (simp add: digits_rx_def plus_def first_digits_def)
next
  case (Cons c cs)
  show ?case
  proof (cases "is_digit c")
    case True
    then obtain rest where "plus is_digit (c # cs) = (takeWhile is_digit (c # cs), dropWhile is_digit (c # cs)) # rest"
      using plus_hd [of "c # cs" is_digit] by auto
    then show ?thesis using True by (simp add: digits_rx_def first_digits_def)
  next
    case False
    then have "plus is_digit (c # cs) = []" by (simp add: plus_Nil)
    then show ?thesis using False Cons.IH by (simp add: digits_rx_def first_digits_def)
  qed
qed

lemma product_phrase_sound:
  assumes "productPhraseMatch t = Some d"
  shows "\<exists>pre w ws post. t = pre @ w @ ws @ d @ post \<and> map ascii_lower w = ''product''
            \<and> ws \<noteq> [] \<and> (\<forall>c \<in> set ws. is_space c) \<and> d \<noteq> [] \<and> (\<forall>c \<in> set d. is_digit c)"
proof -
  have "regex_search product_phrase_rx t = Some d"
    using assms by (simp only: productPhraseMatch_def)
  from regex_search_sound [OF this] obtain pre suf
    where t: "t = pre @ suf" and d: "d \<in> set (product_phrase_rx suf)"
    by auto
  from d obtain w r1 ws r2 r3 where
      m: "(w, r1) \<in> set (lit ''product'' suf)" "(ws, r2) \<in> set (plus is_space r1)"
      "(d, r3) \<in> set (plus is_digit r2)"
    unfolding product_phrase_rx_def by auto
  have 1: "suf = w @ r1" "map ascii_lower w = ''product''" using lit_sound [OF m(1)] by simp_all
  have 2: "r1 = ws @ r2" "ws \<noteq> []" "\<forall>c \<in> set ws. is_space c" using plus_sound [OF m(2)] by simp_all
  have 3: "r2 = d @ r3" "d \<noteq> []" "\<forall>c \<in> set d. is_digit c" using plus_sound [OF m(3)] by simp_all
  have "t = pre @ w @ ws @ d @ r3" using t 1(1) 2(1) 3(1) by simp
  then show ?thesis using 1(2) 2(2,3) 3(2,3)
    by (intro exI [of _ pre] exI [of _ w] exI [of _ ws] exI [of _ r3]) simp
qed

lemma code_unit_zero: "code_unit c = 48 \<longleftrightarrow> c = CHR ''0''"
proof -
  have "(of_char c = (of_char (CHR ''0'') :: nat)) = (c = CHR ''0'')"
    by (rule of_char_eq_iff)
  then show ?thesis by (simp add: code_unit_def)
qed

lemma single_digit_iff:
  "singleDigitMatch t = Some d \<longleftrightarrow> (\<exists>c. t = [c] \<and> d = [c] \<and> is_digit c \<and> c \<noteq> CHR ''0'')"
proof -
  have "(49 \<le> code_unit c \<and> code_unit c \<le> 57) = (is_digit c \<and> c \<noteq> CHR ''0'')" for c
    unfolding code_unit_zero [symmetric] is_digit_def by auto
  then show ?thesis
    by (auto simp: singleDigitMatch_def single_digit_rx_def split: list.splits)
qed

lemma is_digit_word: "is_digit c \<Longrightarrow> is_word c"
  by (simp add: is_word_def)

lemma any_number_sound:
  assumes "anyNumberMatch t = Some d"
  shows "\<exists>pre post. t = pre @ d @ post \<and> d \<noteq> [] \<and> (\<forall>c \<in> set d. is_digit c)
           \<and> (pre = [] \<or> \<not> is_word (last pre)) \<and> (post = [] \<or> \<not> is_word (hd post))"
proof -
  have "regex_search_after any_number_rx None t = Some d"
    using assms by (simp only: anyNumberMatch_def)
  from regex_search_after_sound [OF this] obtain pre suf where t: "t = pre @ suf"
      and d: "d \<in> set (any_number_rx (if pre = [] then None else Some (last pre)) suf)"
    by auto
  let ?prev = "if pre = [] then None else Some (last pre)"
  have wb: "word_boundary ?prev suf"
    using d unfolding any_number_rx_def by (cases "word_boundary ?prev suf") simp_all
  then have "d \<in> set [d. (d, r) \<leftarrow> plus is_digit suf, word_boundary (Some (last d)) r]"
    using d unfolding any_number_rx_def by simp
  then obtain r where p: "(d, r) \<in> set (plus is_digit suf)"
      and wb2: "word_boundary (Some (last d)) r"
    by auto
  have s: "suf = d @ r" "d \<noteq> []" "\<forall>c \<in> set d. is_digit c" using plus_sound [OF p] by simp_all
  have "hd suf = hd d" using s by simp
  then have w1: "is_word (hd suf)" using s by (simp add: is_digit_word)
  have w2: "is_word (last d)" using s by (simp add: is_digit_word)
  have sn: "suf \<noteq> []" using s by simp
  have a: "pre = [] \<or> \<not> is_word (last pre)"
    using wb w1 sn by (cases suf; cases "pre = []") (simp_all add: word_boundary_def)
  have b: "r = [] \<or> \<not> is_word (hd r)"
    using wb2 w2 by (cases r) (simp_all add: word_boundary_def)
  have "t = pre @ d @ r" using t s by simp
  then show ?thesis using s a b
    by (intro exI [of _ pre] exI [of _ r]) simp
qed

subsection \<open>The chain of extractions\<close>

lemma selectedIndexOf_chain:
  "selectedIndexOf n t =
     firstInRange n [lastLineMatch t, productPhraseMatch t, singleDigitMatch t, anyNumberMatch t]"
  by (simp add: selectedIndexOf_def split: option.splits)

lemma inRange_iff:
  "inRange n d = Some i \<longleftrightarrow> i = int (parseInt d) - 1 \<and> 1 \<le> parseInt d \<and> parseInt d \<le> n"
  by (auto simp: inRange_def Let_def)

lemma inRange_None: "inRange n d = None \<longleftrightarrow> \<not> (1 \<le> parseInt d \<and> parseInt d \<le> n)"
  by (auto simp: inRange_def Let_def)

lemma firstInRange_Some:
  "firstInRange n ms = Some i \<Longrightarrow>
     \<exists>k < length ms. Option.bind (ms ! k) (inRange n) = Some i
        \<and> (\<forall>j < k. Option.bind (ms ! j) (inRange n) = None)"
proof (induction ms)
  case Nil
  then show ?case by simp
next
  case (Cons m ms)
  show ?case
  proof (cases "Option.bind m (inRange n)")
    case None
    then have "firstInRange n ms = Some i" using Cons.prems by simp
    from Cons.IH [OF this] obtain k where k: "k < length ms"
        "Option.bind (ms ! k) (inRange n) = Some i"
        "\<forall>j < k. Option.bind (ms ! j) (inRange n) = None"
      by auto
    have "\<forall>j < Suc k. Option.bind ((m # ms) ! j) (inRange n) = None"
      using k(3) None by (auto simp: less_Suc_eq_0_disj)
    then show ?thesis using k(1,2) by (intro exI [of _ "Suc k"]) simp
  next
    case (Some a)
    then have "a = i" using Cons.prems by simp
    then show ?thesis using Some by (intro exI [of _ 0]) simp
  qed
qed

lemma firstInRange_None:
  "firstInRange n ms = None \<longleftrightarrow> (\<forall>m \<in> set ms. Option.bind m (inRange n) = None)"
  by (induction ms) (auto split: option.splits)

lemma firstInRange_skip:
  assumes "k < length ms" and "Option.bind (ms ! k) (inRange n) = None"
  shows "firstInRange n (ms[k := None]) = firstInRange n ms"
  using assms
proof (induction ms arbitrary: k)
  case Nil
  then show ?case by simp
next
  case (Cons m ms)
  show ?case
  proof (cases k)
    case 0
    then show ?thesis using Cons.prems by simp
  next
    case (Suc k')
    then have "firstInRange n (ms[k' := None]) = firstInRange n ms"
      using Cons.prems by (intro Cons.IH) simp_all
    then show ?thesis using Suc by (simp split: option.splits)
  qed
qed

subsection \<open>The first match on a number followed by a unit\<close>







lemma space_not_digit: "is_space c \<Longrightarrow> \<not> is_digit c"
  by (auto simp: is_space_def is_digit_def)


lemma star_run:
  assumes "\<forall>c \<in> set xs. P c" and "r = [] \<or> \<not> P (hd r)"
  shows "\<exists>rest. star P (xs @ r) = (xs, r) # rest"
proof -
  have "takeWhile P r = []" "dropWhile P r = r" using assms(2) by (cases r; simp)+
  then have "takeWhile P (xs @ r) = xs" "dropWhile P (xs @ r) = r"
    using assms(1) by simp_all
  then show ?thesis using star_hd [of P "xs @ r"] by simp
qed

lemma plus_run:
  assumes "xs \<noteq> []" and "\<forall>c \<in> set xs. P c" and "r = [] \<or> \<not> P (hd r)"
  shows "\<exists>rest. plus P (xs @ r) = (xs, r) # rest"
proof -
  obtain rest where "star P (xs @ r) = (xs, r) # rest" using star_run [OF assms(2,3)] by blast
  then show ?thesis using assms(1) by (simp add: plus_def)
qed









lemma selectedIndexOf_empty: "selectedIndexOf 0 t = None"
proof -
  have "inRange 0 d = None" for d by (simp add: inRange_None)
  then have "Option.bind m (inRange 0) = None" for m by (cases m) simp_all
  then show ?thesis by (simp add: selectedIndexOf_chain)
qed















subsection \<open>When an expression finds a match\<close>

lemma regex_search_complete:
  assumes "rx suf \<noteq> []"
  shows "regex_search rx (pre @ suf) \<noteq> None"
proof (induction pre)
  case Nil
  then show ?case using assms by (cases suf; cases "rx suf") simp_all
next
  case (Cons c pre)
  then show ?case by (cases "rx (c # pre @ suf)") simp_all
qed

lemma regex_search_after_complete:
  assumes "rx (if pre = [] then prev else Some (last pre)) suf \<noteq> []"
  shows "regex_search_after rx prev (pre @ suf) \<noteq> None"
  using assms
proof (induction pre arbitrary: prev)
  case Nil
  then show ?case by (cases suf; cases "rx prev suf") simp_all
next
  case (Cons c pre)
  have "rx (if pre = [] then Some c else Some (last pre)) suf \<noteq> []"
    using Cons.prems by (cases "pre = []") simp_all
  then have "regex_search_after rx (Some c) (pre @ suf) \<noteq> None" by (rule Cons.IH)
  then show ?case by (cases "rx prev (c # pre @ suf)") simp_all
qed

lemma lit_match:
  "map ascii_lower w = p \<Longrightarrow> lit p (w @ r) = [(w, r)]"
  by (auto simp: lit_def)

lemma product_phrase_complete:
  assumes "map ascii_lower w = ''product''" and "ws \<noteq> []" and "\<forall>c \<in> set ws. is_space c"
    and "d \<noteq> []" and "\<forall>c \<in> set d. is_digit c"
  shows "productPhraseMatch (pre @ w @ ws @ d @ post) \<noteq> None"
proof -
  let ?d' = "takeWhile is_digit (d @ post)"
  let ?r' = "dropWhile is_digit (d @ post)"
  have l: "lit ''product'' (w @ ws @ d @ post) = [(w, ws @ d @ post)]"
    using assms(1) by (rule lit_match)
  have "\<not> is_space (hd d)" using assms(4,5) by (cases d) (auto dest: space_not_digit)
  then have "d @ post = [] \<or> \<not> is_space (hd (d @ post))" using assms(4) by simp
  then obtain r1 where s: "plus is_space (ws @ d @ post) = (ws, d @ post) # r1"
    using plus_run [OF assms(2,3)] by blast
  have "is_digit (hd (d @ post))" using assms(4,5) by (cases d) simp_all
  then obtain r2 where p: "plus is_digit (d @ post) = (?d', ?r') # r2"
    using plus_hd [of "d @ post" is_digit] assms(4) by auto
  have "product_phrase_rx (w @ ws @ d @ post) \<noteq> []"
    unfolding product_phrase_rx_def by (simp add: l s p)
  then show ?thesis unfolding productPhraseMatch_def by (rule regex_search_complete)
qed

lemma any_number_complete:
  assumes "d \<noteq> []" and "\<forall>c \<in> set d. is_digit c"
    and "pre = [] \<or> \<not> is_word (last pre)" and "post = [] \<or> \<not> is_word (hd post)"
  shows "anyNumberMatch (pre @ d @ post) \<noteq> None"
proof -
  let ?prev = "if pre = [] then None else Some (last pre)"
  have hd: "is_word (hd d)" "is_word (last d)" using assms(1,2) by (simp_all add: is_digit_word)
  have b1: "word_boundary ?prev (d @ post)"
    using assms(1,3) hd by (cases d) (auto simp: word_boundary_def)
  have "post = [] \<or> \<not> is_digit (hd post)" using assms(4) is_digit_word by blast
  then obtain r where p: "plus is_digit (d @ post) = (d, post) # r"
    using plus_run [OF assms(1,2)] by blast
  have b2: "word_boundary (Some (last d)) post"
    using assms(4) hd by (cases post) (auto simp: word_boundary_def)
  have "any_number_rx ?prev (d @ post) \<noteq> []"
    unfolding any_number_rx_def using b1 b2 by (simp add: p)
  then show ?thesis unfolding anyNumberMatch_def by (rule regex_search_after_complete)
qed

section \<open>Main theorems\<close>

text \<open>
  C7.  The exclusion filter keeps, in their original order, exactly the ingredient
  strings that are non-empty and contain no entry of the exclusion list as a substring
  when both are compared in lower case; every other ingredient is dropped.  Whether
  an ingredient is excluded depends only on the lower-case forms of the ingredient
  and of the entries.
\<close>

theorem filterIngredients_exact:
  "filterIngredients ex ings = filter (\<lambda>i. i \<noteq> [] \<and> (\<forall>e \<in> set ex. \<not> contains_ci i e)) ings
   \<and> subseq (filterIngredients ex ings) ings
   \<and> (\<forall>i. i \<in> set (filterIngredients ex ings) \<longleftrightarrow>
          i \<in> set ings \<and> i \<noteq> [] \<and> \<not> (\<exists>e \<in> set ex. contains_ci i e))
   \<and> (toLowerCase j = toLowerCase j' \<and> map toLowerCase ex = map toLowerCase ex' \<longrightarrow>
          shouldExcludeIngredient ex j = shouldExcludeIngredient ex' j')"
proof -
  have eq: "filterIngredients ex ings =
      filter (\<lambda>i. i \<noteq> [] \<and> (\<forall>e \<in> set ex. \<not> contains_ci i e)) ings"
    unfolding filterIngredients_def shouldExcludeIngredient_iff
    by (simp add: conj_commute)
  have cs: "toLowerCase j = toLowerCase j' \<and> map toLowerCase ex = map toLowerCase ex' \<longrightarrow>
          shouldExcludeIngredient ex j = shouldExcludeIngredient ex' j'"
    by (simp add: shouldExcludeIngredient_lower)
  have "subseq (filterIngredients ex ings) ings" unfolding eq by simp
  moreover have "\<forall>i. i \<in> set (filterIngredients ex ings) \<longleftrightarrow>
          i \<in> set ings \<and> i \<noteq> [] \<and> \<not> (\<exists>e \<in> set ex. contains_ci i e)"
    unfolding eq by auto
  ultimately show ?thesis using eq cs by (intro conjI)
qed

theorem filterIngredients_exact_witness:
  "filterIngredients config_excludeIngredients
       [''500g vetemjol'', ''1 tsk Salt'', '''', ''1 burk tomater''] =
     [''500g vetemjol'', ''1 burk tomater'']
   \<and> \<not> (\<exists>e \<in> set config_excludeIngredients. contains_ci ''1 burk tomater'' e)
   \<and> (\<exists>e \<in> set config_excludeIngredients. contains_ci ''1 tsk Salt'' e)
   \<and> shouldExcludeIngredient [''SALT'', ''Olja''] ''1 TSK salt''
   \<and> shouldExcludeIngredient [''salt'', ''OLJA''] ''1 tsk SALT''"
proof -
  let ?ings = "[''500g vetemjol'', ''1 tsk Salt'', '''', ''1 burk tomater'']"
  have e: "filterIngredients config_excludeIngredients ?ings = [''500g vetemjol'', ''1 burk tomater'']"
    by code_simp
  have m: "\<forall>i. i \<in> set (filterIngredients config_excludeIngredients ?ings) \<longleftrightarrow>
          i \<in> set ?ings \<and> i \<noteq> [] \<and> \<not> (\<exists>e \<in> set config_excludeIngredients. contains_ci i e)"
    using filterIngredients_exact [of config_excludeIngredients ?ings] by blast
  have 1: "\<not> (\<exists>e \<in> set config_excludeIngredients. contains_ci ''1 burk tomater'' e)"
    using m [rule_format, of "''1 burk tomater''"] unfolding e by simp
  have 2: "\<exists>e \<in> set config_excludeIngredients. contains_ci ''1 tsk Salt'' e"
    using m [rule_format, of "''1 tsk Salt''"] unfolding e by simp
  have l: "toLowerCase ''1 TSK salt'' = toLowerCase ''1 tsk SALT''
      \<and> map toLowerCase [''SALT'', ''Olja''] = map toLowerCase [''salt'', ''OLJA'']" by code_simp
  have 3: "shouldExcludeIngredient [''SALT'', ''Olja''] ''1 TSK salt''" by code_simp
  have "shouldExcludeIngredient [''SALT'', ''Olja''] ''1 TSK salt''
          = shouldExcludeIngredient [''salt'', ''OLJA''] ''1 tsk SALT''"
    using filterIngredients_exact [of "[''SALT'', ''Olja'']" "[]" "''1 TSK salt''" "''1 tsk SALT''"
            "[''salt'', ''OLJA'']"] l
    by blast
  then have 4: "shouldExcludeIngredient [''salt'', ''OLJA''] ''1 tsk SALT''" using 3 by simp
  show ?thesis using e 1 2 3 4 by (intro conjI)
qed



text \<open>
  C9.  When the call of the text-generation service raises, the normalizer returns the
  raw ingredient unchanged; it has no error result.  When the call succeeds it returns
  the response text without its leading and trailing white space.
\<close>

theorem processIngredientDescription_result:
  "processIngredientDescription (Inl e) ingredient = ingredient
   \<and> processIngredientDescription (Inr content) ingredient = trim content
   \<and> (\<exists>ws1 ws2. content = ws1 @ trim content @ ws2
         \<and> (\<forall>c \<in> set ws1. is_space c) \<and> (\<forall>c \<in> set ws2. is_space c))
   \<and> (trim content \<noteq> [] \<longrightarrow> \<not> is_space (hd (trim content)) \<and> \<not> is_space (last (trim content)))"
proof -
  let ?a = "takeWhile is_space content"
  let ?b = "rev (takeWhile is_space (rev (dropWhile is_space content)))"
  have "content = ?a @ trim content @ ?b" by (rule trim_decompose)
  moreover have "\<forall>c \<in> set ?a. is_space c" by (auto dest: set_takeWhileD)
  moreover have "\<forall>c \<in> set ?b. is_space c" by (auto dest: set_takeWhileD)
  ultimately have "\<exists>ws1 ws2. content = ws1 @ trim content @ ws2
         \<and> (\<forall>c \<in> set ws1. is_space c) \<and> (\<forall>c \<in> set ws2. is_space c)" by blast
  then show ?thesis
    using trim_ends [of content]
    by (simp add: processIngredientDescription_def processIngredientDescription_try_def)
qed

theorem processIngredientDescription_result_witness:
  "processIngredientDescription (Inl ChatError) ''4 aggulor'' = ''4 aggulor''
   \<and> processIngredientDescription (Inr [CHR '' '', CHR ''a'', CHR ''g'', CHR ''g'', CHR 0x0A]) ''4 aggulor'' = ''agg''
   \<and> trim [CHR '' '', CHR ''a'', CHR ''g'', CHR ''g'', CHR 0x0A] \<noteq> []"
proof -
  have t: "trim [CHR '' '', CHR ''a'', CHR ''g'', CHR ''g'', CHR 0x0A] = ''agg''" by code_simp
  show ?thesis
    using processIngredientDescription_result [of ChatError "''4 aggulor''" "[CHR '' '', CHR ''a'', CHR ''g'', CHR ''g'', CHR 0x0A]"] t
    by simp
qed



text \<open>
  C10.  For a non-empty candidate list and a shopping list item in which a weight
  \<open>R > 0\<close> is found, if no candidate's \<^verbatim>\<open>displayVolume\<close> gives a weight, then every
  candidate weighs 0, none reaches \<open>R\<close>, and the matcher returns the first candidate
  of the input list, without a call of the text-generation service.
\<close>

theorem selectBestProduct_no_weights:
  assumes "products \<noteq> []" and "requestedWeightOf shoppingListItem = Some R" and "0 < R"
    and "\<forall>p \<in> set products. regex_search volume_rx (weightText p) = None"
  shows "selectBestProduct response products shoppingListItem = (Some (hd products), 0)
         \<and> (\<forall>p \<in> set products. productWeight p = 0)
         \<and> sufficientWeights products R = []"
proof -
  have w: "\<forall>p \<in> set products. productWeight p = 0"
    using assms(4) by (simp add: productWeight_def volumeWeight_def)
  then have s: "sufficientWeights products R = []"
    using assms(3) by (simp add: sufficientWeights_def filter_empty_conv)
  have "set (map productWeight products) = {0}"
    using w assms(1) by (cases products) auto
  then have c: "closestWeight products R = 0"
    using s by (simp add: closestWeight_def)
  obtain p ps where ps: "products = p # ps" using assms(1) by (cases products) auto
  then have "List.find (\<lambda>q. productWeight q = closestWeight products R) products = Some (hd products)"
    using w c by simp
  moreover obtain q where "selectByWeight products R = Inr q"
    and "List.find (\<lambda>q. productWeight q = closestWeight products R) products = Some q"
    using selectByWeight_find [OF assms(1)] by blast
  ultimately have "selectByWeight products R = Inr (hd products)" by simp
  then have "selectBestProduct response products shoppingListItem = (Some (hd products), 0)"
    using assms(2) by (simp add: selectBestProduct_def selectBestProduct_try_def)
  then show ?thesis using w s by blast
qed

theorem selectBestProduct_no_weights_witness:
  "unweighed \<noteq> []
   \<and> requestedWeightOf ''500g jordnotssmor'' = Some 500 \<and> (0::rat) < 500
   \<and> list_all (\<lambda>p. regex_search volume_rx (weightText p) = None) unweighed
   \<and> selectBestProduct (Inr ''3'') unweighed ''500g jordnotssmor'' = (Some (unweighed ! 0), 0)"
proof -
  have n: "unweighed \<noteq> []" by (simp add: unweighed_def)
  have r: "requestedWeightOf ''500g jordnotssmor'' = Some 500" by code_simp
  have p: "(0::rat) < 500" by simp
  have l: "list_all (\<lambda>p. regex_search volume_rx (weightText p) = None) unweighed" by code_simp
  then have u: "\<forall>p \<in> set unweighed. regex_search volume_rx (weightText p) = None"
    by (simp add: list_all_iff)
  have h: "hd unweighed = unweighed ! 0" by (simp add: unweighed_def)
  show ?thesis
    using selectBestProduct_no_weights [OF n r p u, of "Inr ''3''"] n r l h by simp
qed



text \<open>
  C5.  For every candidate list and every response text the extraction of the product
  number gives either no index or an index \<open>i\<close> with \<open>0 \<le> i < |candidates|\<close>, the number
  read being \<open>i + 1\<close>, and then the candidate at that index is returned.  A number out
  of that range found by one of the four extractions counts as no match of that
  extraction: the result is that of the chain with this match removed.
\<close>

theorem selectedIndexOf_in_range:
  "(selectedIndexOf (length products) t = None
      \<or> (\<exists>i. selectedIndexOf (length products) t = Some i \<and> 0 \<le> i \<and> i < int (length products)
             \<and> selectFromResponse products t = Some (products ! nat i)
             \<and> products ! nat i \<in> set products))
   \<and> (\<forall>k d. k < 4
          \<and> [lastLineMatch t, productPhraseMatch t, singleDigitMatch t, anyNumberMatch t] ! k = Some d
          \<and> \<not> (1 \<le> parseInt d \<and> parseInt d \<le> length products)
        \<longrightarrow> selectedIndexOf (length products) t =
              firstInRange (length products)
                ([lastLineMatch t, productPhraseMatch t, singleDigitMatch t, anyNumberMatch t][k := None]))"
proof (intro conjI allI impI)
  let ?n = "length products"
  let ?ms = "[lastLineMatch t, productPhraseMatch t, singleDigitMatch t, anyNumberMatch t]"
  show "selectedIndexOf ?n t = None
      \<or> (\<exists>i. selectedIndexOf ?n t = Some i \<and> 0 \<le> i \<and> i < int ?n
             \<and> selectFromResponse products t = Some (products ! nat i)
             \<and> products ! nat i \<in> set products)"
  proof (cases "selectedIndexOf ?n t")
    case None
    then show ?thesis by simp
  next
    case (Some i)
    then have "firstInRange ?n ?ms = Some i" by (simp only: selectedIndexOf_chain)
    from firstInRange_Some [OF this] obtain k where "Option.bind (?ms ! k) (inRange ?n) = Some i"
      by auto
    then obtain d where "inRange ?n d = Some i" by (cases "?ms ! k") simp_all
    then have r: "0 \<le> i" "i < int ?n" by (auto simp: inRange_iff)
    then have "nat i < ?n" by simp
    then have "products ! nat i \<in> set products" by (rule nth_mem)
    moreover have "selectFromResponse products t = Some (products ! nat i)"
      using Some by (simp add: selectFromResponse_def)
    ultimately show ?thesis using Some r by simp
  qed
next
  fix k d
  let ?n = "length products"
  let ?ms = "[lastLineMatch t, productPhraseMatch t, singleDigitMatch t, anyNumberMatch t]"
  assume a: "k < 4 \<and> ?ms ! k = Some d \<and> \<not> (1 \<le> parseInt d \<and> parseInt d \<le> ?n)"
  then have "inRange ?n d = None" by (simp add: inRange_None)
  then have "Option.bind (?ms ! k) (inRange ?n) = None" using a by simp
  moreover have "k < length ?ms" using a by simp
  ultimately have "firstInRange ?n (?ms[k := None]) = firstInRange ?n ?ms"
    by (rule firstInRange_skip [rotated])
  then show "selectedIndexOf ?n t = firstInRange ?n (?ms[k := None])"
    by (simp only: selectedIndexOf_chain)
qed

theorem selectedIndexOf_in_range_witness:
  "lastLineMatch out_of_range_text = Some ''7''
   \<and> inRange (length bananas) ''7'' = None
   \<and> productPhraseMatch out_of_range_text = Some ''2''
   \<and> selectedIndexOf (length bananas) out_of_range_text = Some 1
   \<and> selectFromResponse bananas out_of_range_text = Some (bananas ! 1)"
proof -
  have l: "lastLineMatch out_of_range_text = Some ''7''" by code_simp
  have p: "productPhraseMatch out_of_range_text = Some ''2''" by code_simp
  have r: "inRange (length bananas) ''7'' = None" by code_simp
  have r2: "inRange (length bananas) ''2'' = Some 1" by code_simp
  have n: "\<not> (1 \<le> parseInt ''7'' \<and> parseInt ''7'' \<le> length bananas)"
    using r by (simp add: inRange_None)
  let ?ms = "[lastLineMatch out_of_range_text, productPhraseMatch out_of_range_text,
              singleDigitMatch out_of_range_text, anyNumberMatch out_of_range_text]"
  have skip: "\<forall>k d. k < 4 \<and> ?ms ! k = Some d \<and> \<not> (1 \<le> parseInt d \<and> parseInt d \<le> length bananas)
          \<longrightarrow> selectedIndexOf (length bananas) out_of_range_text =
                firstInRange (length bananas) (?ms[k := None])"
    using selectedIndexOf_in_range [of bananas out_of_range_text] by (rule conjunct2)
  have "(0::nat) < 4 \<and> ?ms ! 0 = Some ''7''
          \<and> \<not> (1 \<le> parseInt ''7'' \<and> parseInt ''7'' \<le> length bananas)"
    using l n by simp
  then have "selectedIndexOf (length bananas) out_of_range_text =
          firstInRange (length bananas) (?ms[0 := None])"
    using skip [rule_format, of 0 "''7''"] by blast
  then have s: "selectedIndexOf (length bananas) out_of_range_text = Some 1"
    using p r2 by simp
  then have "selectFromResponse bananas out_of_range_text = Some (bananas ! 1)"
    using selectedIndexOf_in_range [of bananas out_of_range_text] by auto
  then show ?thesis using l p r s by simp
qed

text \<open>
  C4 (amended).  When no weight is found in the shopping list item: if the service
  answers and no extraction gives a valid index, the matcher returns the first
  candidate of a non-empty list and nothing for an empty list; if the call of the
  service raises, the error is caught and the matcher returns nothing, whatever the
  candidates.  For an empty candidate list it returns nothing in every case.  No
  error leaves the matcher.
\<close>

theorem selectBestProduct_fallback:
  assumes "requestedWeightOf shoppingListItem = None"
  shows "(selectedIndexOf (length products) (trim content) = None \<longrightarrow>
            selectBestProduct (Inr content) products shoppingListItem =
              ((case products of [] \<Rightarrow> None | first # _ \<Rightarrow> Some first), 1))
         \<and> selectBestProduct (Inl e) products shoppingListItem = (None, 1)
         \<and> fst (selectBestProduct response [] anyItem) = None"
proof (intro conjI impI)
  assume "selectedIndexOf (length products) (trim content) = None"
  then show "selectBestProduct (Inr content) products shoppingListItem =
              ((case products of [] \<Rightarrow> None | first # _ \<Rightarrow> Some first), 1)"
    using assms
    by (cases products)
       (simp_all add: selectBestProduct_def selectBestProduct_try_def selectFromResponse_def)
next
  show "selectBestProduct (Inl e) products shoppingListItem = (None, 1)"
    using assms by (simp add: selectBestProduct_def selectBestProduct_try_def)
next
  show "fst (selectBestProduct response [] anyItem) = None"
  proof (cases "requestedWeightOf anyItem")
    case None
    then show ?thesis
      by (cases response)
         (simp_all add: selectBestProduct_def selectBestProduct_try_def selectFromResponse_def
            selectedIndexOf_empty)
  next
    case (Some R)
    have "selectByWeight [] R = Inl TypeError"
      by (simp add: selectByWeight_def sort_by_def)
    then show ?thesis
      using Some by (simp add: selectBestProduct_def selectBestProduct_try_def)
  qed
qed

theorem selectBestProduct_fallback_witness:
  "requestedWeightOf ''en burk jordnotssmor'' = None
   \<and> selectedIndexOf (length unweighed) (trim '' I cannot decide. '') = None
   \<and> selectBestProduct (Inr '' I cannot decide. '') unweighed ''en burk jordnotssmor''
       = (Some (unweighed ! 0), 1)
   \<and> selectBestProduct (Inl ChatError) unweighed ''en burk jordnotssmor'' = (None, 1)"
proof -
  have r: "requestedWeightOf ''en burk jordnotssmor'' = None" by code_simp
  have s: "selectedIndexOf (length unweighed) (trim '' I cannot decide. '') = None" by code_simp
  have u: "(case unweighed of [] \<Rightarrow> None | first # _ \<Rightarrow> Some first) = Some (unweighed ! 0)"
    by (simp add: unweighed_def)
  show ?thesis
    using selectBestProduct_fallback [OF r, of unweighed "'' I cannot decide. ''" ChatError] r s u
    by simp
qed

text \<open>
  C4 as stated fails: with three candidates and a call of the service that raises,
  the matcher returns nothing, not the first candidate.
\<close>

theorem selectBestProduct_error_counterexample:
  "unweighed \<noteq> []
   \<and> requestedWeightOf ''en burk jordnotssmor'' = None
   \<and> selectBestProduct (Inl ChatError) unweighed ''en burk jordnotssmor'' = (None, 1)
   \<and> fst (selectBestProduct (Inl ChatError) unweighed ''en burk jordnotssmor'') \<noteq> Some (hd unweighed)"
proof -
  have r: "requestedWeightOf ''en burk jordnotssmor'' = None" by code_simp
  have n: "unweighed \<noteq> []" by (simp add: unweighed_def)
  have "selectBestProduct (Inl ChatError) unweighed ''en burk jordnotssmor'' = (None, 1)"
    using r by (simp add: selectBestProduct_def selectBestProduct_try_def)
  then show ?thesis using r n by simp
qed

text \<open>
  C3 (amended).  The product number is the first in-range result of four extractions
  tried in this order, each only when the ones before gave no in-range index: the
  first run of digits anywhere on the last line that is not blank; the digits of a
  phrase \<^verbatim>\<open>Product N\<close>, in any case and with white space before the digits, which is
  found exactly when the text holds such a phrase; the whole response when it is one
  digit from 1 to 9; a run of digits that has no word character next to it on either
  side, which is found exactly when the text holds such a run.
\<close>

theorem selectedIndexOf_strategies:
  "selectedIndexOf n t =
     firstInRange n [lastLineMatch t, productPhraseMatch t, singleDigitMatch t, anyNumberMatch t]
   \<and> (selectedIndexOf n t = Some i \<longrightarrow>
        (\<exists>k < 4. Option.bind ([lastLineMatch t, productPhraseMatch t, singleDigitMatch t,
                               anyNumberMatch t] ! k) (inRange n) = Some i
           \<and> (\<forall>j < k. Option.bind ([lastLineMatch t, productPhraseMatch t, singleDigitMatch t,
                                     anyNumberMatch t] ! j) (inRange n) = None)))
   \<and> lastLineMatch t =
        (case filter (\<lambda>line. trim line \<noteq> []) (split_lines t) of
           [] \<Rightarrow> None
         | l # ls \<Rightarrow> first_digits (last (l # ls)))
   \<and> (productPhraseMatch t = Some d \<longrightarrow>
        (\<exists>pre w ws post. t = pre @ w @ ws @ d @ post \<and> map ascii_lower w = ''product''
            \<and> ws \<noteq> [] \<and> (\<forall>c \<in> set ws. is_space c) \<and> d \<noteq> [] \<and> (\<forall>c \<in> set d. is_digit c)))
   \<and> (productPhraseMatch t \<noteq> None \<longleftrightarrow>
        (\<exists>pre w ws d' post. t = pre @ w @ ws @ d' @ post \<and> map ascii_lower w = ''product''
            \<and> ws \<noteq> [] \<and> (\<forall>c \<in> set ws. is_space c) \<and> d' \<noteq> [] \<and> (\<forall>c \<in> set d'. is_digit c)))
   \<and> (singleDigitMatch t = Some d \<longleftrightarrow> (\<exists>c. t = [c] \<and> d = [c] \<and> is_digit c \<and> c \<noteq> CHR ''0''))
   \<and> (anyNumberMatch t = Some d \<longrightarrow>
        (\<exists>pre post. t = pre @ d @ post \<and> d \<noteq> [] \<and> (\<forall>c \<in> set d. is_digit c)
           \<and> (pre = [] \<or> \<not> is_word (last pre)) \<and> (post = [] \<or> \<not> is_word (hd post))))
   \<and> (anyNumberMatch t \<noteq> None \<longleftrightarrow>
        (\<exists>pre d' post. t = pre @ d' @ post \<and> d' \<noteq> [] \<and> (\<forall>c \<in> set d'. is_digit c)
           \<and> (pre = [] \<or> \<not> is_word (last pre)) \<and> (post = [] \<or> \<not> is_word (hd post))))"
proof -
  let ?ms = "[lastLineMatch t, productPhraseMatch t, singleDigitMatch t, anyNumberMatch t]"
  have 1: "selectedIndexOf n t = firstInRange n ?ms" by (rule selectedIndexOf_chain)
  have 2: "selectedIndexOf n t = Some i \<longrightarrow>
        (\<exists>k < 4. Option.bind (?ms ! k) (inRange n) = Some i
           \<and> (\<forall>j < k. Option.bind (?ms ! j) (inRange n) = None))"
  proof
    assume "selectedIndexOf n t = Some i"
    then have "firstInRange n ?ms = Some i" by (simp only: selectedIndexOf_chain)
    from firstInRange_Some [OF this]
    have "\<exists>k < length ?ms. Option.bind (?ms ! k) (inRange n) = Some i
           \<and> (\<forall>j < k. Option.bind (?ms ! j) (inRange n) = None)" .
    moreover have "length ?ms = 4" by simp
    ultimately show "\<exists>k < 4. Option.bind (?ms ! k) (inRange n) = Some i
           \<and> (\<forall>j < k. Option.bind (?ms ! j) (inRange n) = None)"
      by (simp only:)
  qed
  have 3: "lastLineMatch t =
        (case filter (\<lambda>line. trim line \<noteq> []) (split_lines t) of
           [] \<Rightarrow> None
         | l # ls \<Rightarrow> first_digits (last (l # ls)))"
    by (simp add: lastLineMatch_def digits_rx_eq split: list.splits)
  have 4: "productPhraseMatch t = Some d \<longrightarrow>
        (\<exists>pre w ws post. t = pre @ w @ ws @ d @ post \<and> map ascii_lower w = ''product''
            \<and> ws \<noteq> [] \<and> (\<forall>c \<in> set ws. is_space c) \<and> d \<noteq> [] \<and> (\<forall>c \<in> set d. is_digit c))"
    using product_phrase_sound by (intro impI)
  have 5: "productPhraseMatch t \<noteq> None \<longleftrightarrow>
        (\<exists>pre w ws d' post. t = pre @ w @ ws @ d' @ post \<and> map ascii_lower w = ''product''
            \<and> ws \<noteq> [] \<and> (\<forall>c \<in> set ws. is_space c) \<and> d' \<noteq> [] \<and> (\<forall>c \<in> set d'. is_digit c))"
  proof
    assume "productPhraseMatch t \<noteq> None"
    then obtain d' where "productPhraseMatch t = Some d'" by (cases "productPhraseMatch t") simp_all
    from product_phrase_sound [OF this]
    show "\<exists>pre w ws d' post. t = pre @ w @ ws @ d' @ post \<and> map ascii_lower w = ''product''
            \<and> ws \<noteq> [] \<and> (\<forall>c \<in> set ws. is_space c) \<and> d' \<noteq> [] \<and> (\<forall>c \<in> set d'. is_digit c)"
      by (elim exE) (intro exI, assumption)
  next
    assume "\<exists>pre w ws d' post. t = pre @ w @ ws @ d' @ post \<and> map ascii_lower w = ''product''
            \<and> ws \<noteq> [] \<and> (\<forall>c \<in> set ws. is_space c) \<and> d' \<noteq> [] \<and> (\<forall>c \<in> set d'. is_digit c)"
    then obtain pre w ws d' post where "t = pre @ w @ ws @ d' @ post"
        "map ascii_lower w = ''product''" "ws \<noteq> []" "\<forall>c \<in> set ws. is_space c"
        "d' \<noteq> []" "\<forall>c \<in> set d'. is_digit c"
      by (elim exE conjE)
    then show "productPhraseMatch t \<noteq> None" by (simp only: product_phrase_complete not_False_eq_True)
  qed
  have 6: "singleDigitMatch t = Some d \<longleftrightarrow> (\<exists>c. t = [c] \<and> d = [c] \<and> is_digit c \<and> c \<noteq> CHR ''0'')"
    by (rule single_digit_iff)
  have 7: "anyNumberMatch t = Some d \<longrightarrow>
        (\<exists>pre post. t = pre @ d @ post \<and> d \<noteq> [] \<and> (\<forall>c \<in> set d. is_digit c)
           \<and> (pre = [] \<or> \<not> is_word (last pre)) \<and> (post = [] \<or> \<not> is_word (hd post)))"
    using any_number_sound by (intro impI)
  have 8: "anyNumberMatch t \<noteq> None \<longleftrightarrow>
        (\<exists>pre d' post. t = pre @ d' @ post \<and> d' \<noteq> [] \<and> (\<forall>c \<in> set d'. is_digit c)
           \<and> (pre = [] \<or> \<not> is_word (last pre)) \<and> (post = [] \<or> \<not> is_word (hd post)))"
  proof
    assume "anyNumberMatch t \<noteq> None"
    then obtain d' where "anyNumberMatch t = Some d'" by (cases "anyNumberMatch t") simp_all
    from any_number_sound [OF this]
    show "\<exists>pre d' post. t = pre @ d' @ post \<and> d' \<noteq> [] \<and> (\<forall>c \<in> set d'. is_digit c)
           \<and> (pre = [] \<or> \<not> is_word (last pre)) \<and> (post = [] \<or> \<not> is_word (hd post))"
      by (elim exE) (intro exI, assumption)
  next
    assume "\<exists>pre d' post. t = pre @ d' @ post \<and> d' \<noteq> [] \<and> (\<forall>c \<in> set d'. is_digit c)
           \<and> (pre = [] \<or> \<not> is_word (last pre)) \<and> (post = [] \<or> \<not> is_word (hd post))"
    then obtain pre d' post where "t = pre @ d' @ post" "d' \<noteq> []" "\<forall>c \<in> set d'. is_digit c"
        "pre = [] \<or> \<not> is_word (last pre)" "post = [] \<or> \<not> is_word (hd post)"
      by (elim exE conjE)
    then show "anyNumberMatch t \<noteq> None" by (simp only: any_number_complete not_False_eq_True)
  qed
  show ?thesis using 1 2 3 4 5 6 7 8 by (intro conjI)
qed

theorem selectedIndexOf_strategies_witness:
  "lastLineMatch ''I pick product  3'' = Some ''3''
   \<and> productPhraseMatch ''I pick product  3'' = Some ''3''
   \<and> anyNumberMatch ''I pick product  3'' = Some ''3''
   \<and> selectedIndexOf 3 ''I pick product  3'' = Some 2
   \<and> firstInRange 3 [Some ''3'', Some ''3'', None, Some ''3''] = Some 2"
proof -
  have e: "lastLineMatch ''I pick product  3'' = Some ''3''"
    "productPhraseMatch ''I pick product  3'' = Some ''3''"
    "singleDigitMatch ''I pick product  3'' = None"
    "anyNumberMatch ''I pick product  3'' = Some ''3''"
    by code_simp+
  have f: "firstInRange 3 [Some ''3'', Some ''3'', None, Some ''3''] = Some 2" by code_simp
  have "selectedIndexOf 3 ''I pick product  3'' =
     firstInRange 3 [lastLineMatch ''I pick product  3'', productPhraseMatch ''I pick product  3'',
       singleDigitMatch ''I pick product  3'', anyNumberMatch ''I pick product  3'']"
    using selectedIndexOf_strategies [of 3 "''I pick product  3''" 2 "''3''"] by (rule conjunct1)
  then have "selectedIndexOf 3 ''I pick product  3'' = Some 2" unfolding e f .
  then show ?thesis using e f by simp
qed

text \<open>
  C3 as stated fails: on a response whose last line has no digit and whose second
  line is \<^verbatim>\<open>Final choice: 2\<close>, the second extraction finds nothing, and with three
  candidates the first number of the text selects index 0 instead of index 1.
\<close>

theorem selectedIndexOf_strategies_counterexample:
  "lastLineMatch final_choice_text = None
   \<and> regex_search spec_final_choice_rx final_choice_text = Some ''2''
   \<and> inRange 3 ''2'' = Some 1
   \<and> productPhraseMatch final_choice_text = None
   \<and> singleDigitMatch final_choice_text = None
   \<and> anyNumberMatch final_choice_text = Some ''1''
   \<and> selectedIndexOf 3 final_choice_text = Some 0"
  by code_simp




end
